theory Spec2Isabelle
  imports Complex_Main "HOL-Library.Word"
begin

unbundle bit_operations_syntax

section \<open>Values of the JavaScript program\<close>

text \<open>
  A JavaScript string is a sequence of 16-bit code units; a \<open>Uint8Array\<close> is a
  fixed-length sequence of 8-bit unsigned integers. Both are lists here. A write to a
  typed array at an index beyond its length is ignored by JavaScript, which is what
  \<open>xs[i := v]\<close> does on a list.
\<close>

type_synonym jschar = "16 word"
type_synonym jsstring = "jschar list"
type_synonym u8 = "8 word"
type_synonym Uint8Array = "u8 list"

definition js :: "string \<Rightarrow> jsstring" where
  "js s = map (\<lambda>c. of_nat (of_char c)) s"

section \<open>Utils: hex strings and bytes\<close>

text \<open>
  \<open>Number.prototype.toString(16)\<close> on a non-negative integer: its base-16 digits,
  lowercase, most significant first, no leading zero.
\<close>

definition hexDigit :: "nat \<Rightarrow> jschar" where
  "hexDigit d = (if d < 10 then of_nat (48 + d) else of_nat (87 + d))"

fun toString16 :: "nat \<Rightarrow> jsstring" where
  "toString16 n = (if n < 16 then [hexDigit n] else toString16 (n div 16) @ [hexDigit (n mod 16)])"

declare toString16.simps [simp del]

text \<open>\<open>String.prototype.padStart(n, c)\<close> with a one-unit filler \<open>c\<close>.\<close>

definition padStart :: "nat \<Rightarrow> jschar \<Rightarrow> jsstring \<Rightarrow> jsstring" where
  "padStart n c s = replicate (n - length s) c @ s"

text \<open>
  \<^verbatim>\<open>bytesToHex(bytes) { return Array.from(bytes).map(b => b.toString(16).padStart(2, '0')).join(''); }\<close>
\<close>

definition bytesToHex :: "Uint8Array \<Rightarrow> jsstring" where
  "bytesToHex bytes = concat (map (\<lambda>b. padStart 2 48 (toString16 (unat b))) bytes)"

text \<open>
  \<open>parseInt(s, 16)\<close>, after the ECMAScript definition: leading white space is skipped,
  one sign is read, a \<open>0x\<close> or \<open>0X\<close> prefix is dropped, and the longest prefix of
  base-16 digits is the value; with no digit the result is \<open>NaN\<close>, here \<open>None\<close>.
  (The value is exact for the strings of at most two code units that \<open>hexToBytes\<close>
  passes; \<open>-0\<close> is not told apart from \<open>0\<close>, both are stored as the byte 0.)
\<close>

definition isWhiteSpace :: "jschar \<Rightarrow> bool" where
  "isWhiteSpace c \<longleftrightarrow>
     c \<in> {0x0009, 0x000A, 0x000B, 0x000C, 0x000D, 0x0020, 0x00A0, 0x1680,
          0x2028, 0x2029, 0x202F, 0x205F, 0x3000, 0xFEFF}
     \<or> (0x2000 \<le> c \<and> c \<le> 0x200A)"

definition digitValue :: "jschar \<Rightarrow> nat option" where
  "digitValue c =
     (if 0x30 \<le> c \<and> c \<le> 0x39 then Some (unat c - 0x30)
      else if 0x61 \<le> c \<and> c \<le> 0x66 then Some (unat c - 0x61 + 10)
      else if 0x41 \<le> c \<and> c \<le> 0x46 then Some (unat c - 0x41 + 10)
      else None)"

fun digitsValue :: "nat \<Rightarrow> jsstring \<Rightarrow> nat" where
  "digitsValue acc [] = acc"
| "digitsValue acc (c # cs) =
     (case digitValue c of None \<Rightarrow> acc | Some d \<Rightarrow> digitsValue (16 * acc + d) cs)"

definition parseInt16 :: "jsstring \<Rightarrow> int option" where
  "parseInt16 string =
     (let S = dropWhile isWhiteSpace string;
          sign = (if S \<noteq> [] \<and> hd S = 0x2D then -1 else 1);
          S = (if S \<noteq> [] \<and> (hd S = 0x2B \<or> hd S = 0x2D) then tl S else S);
          S = (if 2 \<le> length S \<and> hd S = 0x30 \<and> (S ! 1 = 0x78 \<or> S ! 1 = 0x58) then drop 2 S else S)
      in if S = [] \<or> digitValue (hd S) = None then None
         else Some (sign * int (digitsValue 0 S)))"

text \<open>Storing a number into a \<open>Uint8Array\<close>: \<open>NaN\<close> becomes 0, an integer is taken modulo 256.\<close>

definition ToUint8 :: "int option \<Rightarrow> u8" where
  "ToUint8 v = (case v of None \<Rightarrow> 0 | Some n \<Rightarrow> word_of_int n)"

text \<open>\<open>String.prototype.substr(i, n)\<close> for \<open>0 \<le> i\<close>.\<close>

definition substr :: "jsstring \<Rightarrow> nat \<Rightarrow> nat \<Rightarrow> jsstring" where
  "substr s i n = take n (drop i s)"

text \<open>
  \<^verbatim>\<open>hexToBytes(hex) {
    const bytes = new Uint8Array(hex.length / 2);
    for (let i = 0; i < hex.length; i += 2) {
      bytes[i / 2] = parseInt(hex.substr(i, 2), 16);
    }
    return bytes;
  }\<close>
  \<open>new Uint8Array(n)\<close> truncates a fractional length, so an odd-length string gets a
  buffer of \<open>hex.length div 2\<close> zero bytes, and the write for its last, single code unit
  falls outside the buffer and is ignored. Nothing in the function throws.
\<close>

function hexToBytes_loop :: "jsstring \<Rightarrow> nat \<Rightarrow> Uint8Array \<Rightarrow> Uint8Array" where
  "hexToBytes_loop hex i bytes =
     (if i < length hex
      then hexToBytes_loop hex (i + 2) (bytes[i div 2 := ToUint8 (parseInt16 (substr hex i 2))])
      else bytes)"
  by pat_completeness auto
termination
  by (relation "measure (\<lambda>(hex, i, bytes). length hex - i)") auto

declare hexToBytes_loop.simps [simp del]

definition hexToBytes :: "jsstring \<Rightarrow> Uint8Array" where
  "hexToBytes hex = hexToBytes_loop hex 0 (replicate (length hex div 2) 0)"

section \<open>The platform the program runs on\<close>

text \<open>
  The program calls four things it does not define: \<open>TextEncoder.encode\<close> (UTF-8),
  \<open>crypto.subtle.digest('SHA-1', _)\<close>, \<open>crypto.getRandomValues\<close>, and the optional
  global \<open>CryptoJS\<close> with its MD5. They are the fields of a \<open>world\<close>: the first two are
  functions, the random generator is the sequence of bytes it will deliver and the number
  already drawn, and \<open>CryptoJS\<close> is \<open>None\<close> when \<open>typeof CryptoJS === 'undefined'\<close>.
  \<open>CryptoJS.MD5(CryptoJS.lib.WordArray.create(bytes))\<close> is one function from bytes to a
  \<open>WordArray\<close>, an array of 32-bit words with a count of significant bytes.
\<close>

record WordArray =
  words :: "32 word list"
  sigBytes :: nat

record world =
  TextEncoder_encode :: "jsstring \<Rightarrow> Uint8Array"
  digest_SHA1 :: "Uint8Array \<Rightarrow> Uint8Array"
  CryptoJS_MD5 :: "(Uint8Array \<Rightarrow> WordArray) option"
  random_source :: "nat \<Rightarrow> u8"
  random_drawn :: nat

datatype error = Error string

text \<open>\<^verbatim>\<open>stringToBytes(str) { return new TextEncoder().encode(str); }\<close>\<close>

definition stringToBytes :: "world \<Rightarrow> jsstring \<Rightarrow> Uint8Array" where
  "stringToBytes w str = TextEncoder_encode w str"

text \<open>
  \<^verbatim>\<open>getRandomBytes(length) { const bytes = new Uint8Array(length); crypto.getRandomValues(bytes); return bytes; }\<close>
  (for a \<open>length\<close> within the quota of \<open>getRandomValues\<close>, 65536 bytes).
\<close>

definition getRandomBytes :: "world \<Rightarrow> nat \<Rightarrow> Uint8Array \<times> world" where
  "getRandomBytes w len =
     (map (random_source w) [random_drawn w ..< random_drawn w + len],
      w\<lparr>random_drawn := random_drawn w + len\<rparr>)"

text \<open>\<^verbatim>\<open>async sha1(data) { return this.calculate('SHA-1', data); }\<close> on a byte buffer.\<close>

definition sha1 :: "world \<Rightarrow> Uint8Array \<Rightarrow> Uint8Array" where
  "sha1 w data = digest_SHA1 w data"

section \<open>UUID\<close>

text \<open>\<open>slice(a, b)\<close> of a string or a typed array, for \<open>0 \<le> a\<close> and \<open>0 \<le> b\<close>.\<close>

definition slice_list :: "'a list \<Rightarrow> nat \<Rightarrow> nat \<Rightarrow> 'a list" where
  "slice_list xs a b = take (b - a) (drop a xs)"

text \<open>\<^verbatim>\<open>parse(uuid) { const hex = uuid.replace(/-/g, ''); return Utils.hexToBytes(hex); }\<close>\<close>

definition parse :: "jsstring \<Rightarrow> Uint8Array" where
  "parse uuid = (let hex = filter (\<lambda>c. c \<noteq> 0x2D) uuid in hexToBytes hex)"

text \<open>
  \<^verbatim>\<open>format(bytes) {
    const hex = Utils.bytesToHex(bytes);
    return [hex.slice(0, 8), hex.slice(8, 12), hex.slice(12, 16), hex.slice(16, 20), hex.slice(20, 32)].join('-');
  }\<close>
\<close>

definition format :: "Uint8Array \<Rightarrow> jsstring" where
  "format bytes =
     (let hex = bytesToHex bytes
      in slice_list hex 0 8 @ [0x2D] @ slice_list hex 8 12 @ [0x2D] @ slice_list hex 12 16 @ [0x2D]
         @ slice_list hex 16 20 @ [0x2D] @ slice_list hex 20 32)"

text \<open>
  Reading a typed array beyond its length gives \<open>undefined\<close>, which the bit operators
  take as 0.
\<close>

definition byteAt :: "Uint8Array \<Rightarrow> nat \<Rightarrow> u8" where
  "byteAt bytes i = (if i < length bytes then bytes ! i else 0)"

text \<open>
  \<^verbatim>\<open>v4() {
    const bytes = Utils.getRandomBytes(16);
    bytes[6] = (bytes[6] & 0x0f) | 0x40;
    bytes[8] = (bytes[8] & 0x3f) | 0x80;
    return this.format(bytes);
  }\<close>
\<close>

definition v4 :: "world \<Rightarrow> jsstring \<times> world" where
  "v4 w =
     (let (bytes, w') = getRandomBytes w 16;
          bytes = bytes[6 := (byteAt bytes 6 AND 0x0f) OR 0x40];
          bytes = bytes[8 := (byteAt bytes 8 AND 0x3f) OR 0x80]
      in (format bytes, w'))"

text \<open>
  \<^verbatim>\<open>wordArrayToBytes(wordArray) {
    const words = wordArray.words; const sigBytes = wordArray.sigBytes;
    const bytes = new Uint8Array(sigBytes);
    for (let i = 0; i < sigBytes; i++) { bytes[i] = (words[i >>> 2] >>> (24 - (i % 4) * 8)) & 0xff; }
    return bytes;
  }\<close>
\<close>

definition wordAt :: "32 word list \<Rightarrow> nat \<Rightarrow> 32 word" where
  "wordAt ws j = (if j < length ws then ws ! j else 0)"

definition wordArrayToBytes :: "WordArray \<Rightarrow> Uint8Array" where
  "wordArrayToBytes wordArray =
     map (\<lambda>i. ucast (drop_bit (24 - (i mod 4) * 8) (wordAt (words wordArray) (drop_bit 2 i)) AND 0xff))
       [0 ..< sigBytes wordArray]"

text \<open>
  \<^verbatim>\<open>async v3(namespace, name) {
    if (typeof CryptoJS === 'undefined') { throw new Error('CryptoJS is required for UUID v3'); }
    const nsBytes = this.parse(namespace);
    const nameBytes = Utils.stringToBytes(name);
    const combined = new Uint8Array(nsBytes.length + nameBytes.length);
    combined.set(nsBytes); combined.set(nameBytes, nsBytes.length);
    const wordArray = CryptoJS.lib.WordArray.create(combined);
    const hash = CryptoJS.MD5(wordArray);
    const bytes = this.wordArrayToBytes(hash);
    bytes[6] = (bytes[6] & 0x0f) | 0x30;
    bytes[8] = (bytes[8] & 0x3f) | 0x80;
    return this.format(bytes);
  }\<close>
  The result of the \<open>async\<close> function is what its promise settles to: \<open>Inl\<close> the error it
  rejects with, \<open>Inr\<close> the value it resolves to.
\<close>

definition v3 :: "world \<Rightarrow> jsstring \<Rightarrow> jsstring \<Rightarrow> error + jsstring" where
  "v3 w namespace name =
     (case CryptoJS_MD5 w of
        None \<Rightarrow> Inl (Error ''CryptoJS is required for UUID v3'')
      | Some MD5 \<Rightarrow>
          (let nsBytes = parse namespace;
               nameBytes = stringToBytes w name;
               combined = nsBytes @ nameBytes;
               hash = MD5 combined;
               bytes = wordArrayToBytes hash;
               bytes = bytes[6 := (byteAt bytes 6 AND 0x0f) OR 0x30];
               bytes = bytes[8 := (byteAt bytes 8 AND 0x3f) OR 0x80]
           in Inr (format bytes)))"

text \<open>
  \<^verbatim>\<open>async v5(namespace, name) {
    const nsBytes = this.parse(namespace);
    const nameBytes = Utils.stringToBytes(name);
    const combined = new Uint8Array(nsBytes.length + nameBytes.length);
    combined.set(nsBytes); combined.set(nameBytes, nsBytes.length);
    const hashBytes = await Hash.sha1(combined);
    const bytes = hashBytes.slice(0, 16);
    bytes[6] = (bytes[6] & 0x0f) | 0x50;
    bytes[8] = (bytes[8] & 0x3f) | 0x80;
    return this.format(bytes);
  }\<close>
\<close>

definition v5 :: "world \<Rightarrow> jsstring \<Rightarrow> jsstring \<Rightarrow> jsstring" where
  "v5 w namespace name =
     (let nsBytes = parse namespace;
          nameBytes = stringToBytes w name;
          combined = nsBytes @ nameBytes;
          hashBytes = sha1 w combined;
          bytes = slice_list hashBytes 0 16;
          bytes = bytes[6 := (byteAt bytes 6 AND 0x0f) OR 0x50];
          bytes = bytes[8 := (byteAt bytes 8 AND 0x3f) OR 0x80]
      in format bytes)"

definition NAMESPACE_DNS :: jsstring where
  "NAMESPACE_DNS = js ''6ba7b810-9dad-11d1-80b4-00c04fd430c8''"

section \<open>HexView\<close>

subsection \<open>The options object of the constructor\<close>

text \<open>
  The constructor receives any JavaScript object as \<open>options\<close>. An object is a map from
  property names to values; reading a property that is absent gives \<open>undefined\<close>.
  Finite numbers are reals (\<open>-0\<close> is not told apart from \<open>0\<close>, both are falsy).
\<close>

datatype jsval =
    Undefined | Null | Boolean bool | Number real | NaN | PlusInfinity | MinusInfinity
  | String jsstring | Object

type_synonym jsobject = "string \<rightharpoonup> jsval"

definition getProp :: "jsobject \<Rightarrow> string \<Rightarrow> jsval" where
  "getProp obj k = (case obj k of None \<Rightarrow> Undefined | Some v \<Rightarrow> v)"

fun ToBoolean :: "jsval \<Rightarrow> bool" where
  "ToBoolean Undefined = False"
| "ToBoolean Null = False"
| "ToBoolean (Boolean b) = b"
| "ToBoolean (Number x) = (x \<noteq> 0)"
| "ToBoolean NaN = False"
| "ToBoolean PlusInfinity = True"
| "ToBoolean MinusInfinity = True"
| "ToBoolean (String s) = (s \<noteq> [])"
| "ToBoolean Object = True"

text \<open>\<open>a || b\<close>\<close>

definition js_or :: "jsval \<Rightarrow> jsval \<Rightarrow> jsval" where
  "js_or a b = (if ToBoolean a then a else b)"

text \<open>
  \<^verbatim>\<open>this.options = {
    bytesPerRow: options.bytesPerRow || 16,
    showHeader: options.showHeader !== false,
    showAscii: options.showAscii !== false,
    maxRows: options.maxRows || 100,
    ...options
  };\<close>
  The spread comes last: every own property of \<open>options\<close> overwrites the property of the
  same name written before it, which is \<open>++\<close> on maps.
\<close>

definition HexView_options :: "jsobject \<Rightarrow> jsobject" where
  "HexView_options options =
     [''bytesPerRow'' \<mapsto> js_or (getProp options ''bytesPerRow'') (Number 16),
      ''showHeader'' \<mapsto> Boolean (getProp options ''showHeader'' \<noteq> Boolean False),
      ''showAscii'' \<mapsto> Boolean (getProp options ''showAscii'' \<noteq> Boolean False),
      ''maxRows'' \<mapsto> js_or (getProp options ''maxRows'') (Number 100)]
     ++ options"

subsection \<open>Rendering\<close>

text \<open>
  Rendering is modelled for the options the specification gives the renderer: unsigned
  integers for \<open>bytesPerRow\<close> and \<open>maxRows\<close>, booleans for the two flags. The HTML text
  that \<open>render\<close> writes into the container is kept as its structure: the elements with
  the data each one carries, without the markup around them.
\<close>

record config =
  bytesPerRow :: nat
  showHeader :: bool
  showAscii :: bool
  maxRows :: nat

text \<open>
  A cell of the hex column: a byte (\<open>data-index\<close> and two digits), the blank cell that pads
  a short row, or the extra space after the eighth column.
\<close>

datatype hexCell = ByteCell nat jsstring | BlankCell | HalfGap

text \<open>A cell of the ASCII column: printable or not, \<open>data-index\<close>, and the text shown.\<close>

datatype asciiCell = AsciiCell bool nat jsstring

record hexRow =
  offsetHex :: jsstring
  hexBytes :: "hexCell list"
  ascii :: "asciiCell list option"

text \<open>
  The content of the container: the "No data" state, or an optional header (the total size,
  shown through \<open>formatSize\<close>, and whether \<open>(truncated)\<close> follows it), the rows, and the
  optional last line \<open>... n more bytes ...\<close>.
\<close>

datatype view = NoData | Content "(nat \<times> bool) option" "hexRow list" "nat option"

record HexView =
  options :: config
  data :: "Uint8Array option"
  highlightedIndex :: int
  innerHTML :: view

text \<open>\<open>toUpperCase\<close>, on the letters of ASCII (it is applied to base-16 digits only).\<close>

definition toUpperCase :: "jsstring \<Rightarrow> jsstring" where
  "toUpperCase s = map (\<lambda>c. if 0x61 \<le> c \<and> c \<le> 0x7A then c - 0x20 else c) s"

text \<open>
  \<^verbatim>\<open>byteToAscii(byte) {
    if (byte >= 32 && byte <= 126) {
      if (byte === 60) return '&lt;';
      if (byte === 62) return '&gt;';
      if (byte === 38) return '&amp;';
      return String.fromCharCode(byte);
    }
    return '.';
  }\<close>
\<close>

definition byteToAscii :: "u8 \<Rightarrow> jsstring" where
  "byteToAscii byte =
     (if 32 \<le> byte \<and> byte \<le> 126 then
        if byte = 60 then js ''&lt;''
        else if byte = 62 then js ''&gt;''
        else if byte = 38 then js ''&amp;''
        else [ucast byte]
      else js ''.'')"

text \<open>
  \<^verbatim>\<open>renderRow(offset, bytes) {
    const offsetHex = offset.toString(16).toUpperCase().padStart(8, '0');
    let hexHtml = '';
    for (let i = 0; i < this.options.bytesPerRow; i++) {
      if (i < bytes.length) {
        const byte = bytes[i];
        const hex = byte.toString(16).toUpperCase().padStart(2, '0');
        hexHtml += `<span class="hex-byte" data-index="${offset + i}">${hex}</span>`;
      } else {
        hexHtml += '<span class="hex-byte">&nbsp;&nbsp;</span>';
      }
      if (i === 7) { hexHtml += '&nbsp;'; }
    }
    let asciiHtml = '';
    if (this.options.showAscii) {
      for (let i = 0; i < bytes.length; i++) {
        const byte = bytes[i];
        const char = this.byteToAscii(byte);
        const isPrintable = byte >= 32 && byte <= 126;
        asciiHtml += `<span class="hex-ascii-char${isPrintable ? '' : ' non-printable'}" data-index="${offset + i}">${char}</span>`;
      }
    }
    return `<div class="hex-row"> ${offsetHex} ${hexHtml} ${this.options.showAscii ? asciiHtml : ''} </div>`;
  }\<close>
\<close>

definition renderRow :: "config \<Rightarrow> nat \<Rightarrow> Uint8Array \<Rightarrow> hexRow" where
  "renderRow opts offset bytes =
     (let offsetHex = padStart 8 48 (toUpperCase (toString16 offset));
          hexHtml = concat (map (\<lambda>i.
              [if i < length bytes
               then ByteCell (offset + i) (padStart 2 48 (toUpperCase (toString16 (unat (bytes ! i)))))
               else BlankCell]
              @ (if i = 7 then [HalfGap] else []))
            [0 ..< bytesPerRow opts]);
          asciiHtml = (if showAscii opts
            then map (\<lambda>i. AsciiCell (32 \<le> bytes ! i \<and> bytes ! i \<le> 126) (offset + i) (byteToAscii (bytes ! i)))
                   [0 ..< length bytes]
            else [])
      in \<lparr>offsetHex = offsetHex, hexBytes = hexHtml,
          ascii = (if showAscii opts then Some asciiHtml else None)\<rparr>)"

text \<open>
  The loop of \<open>render\<close> over the rows:
  \<^verbatim>\<open>for (let offset = 0; offset < displayBytes; offset += this.options.bytesPerRow) {
    const rowBytes = this.data.slice(offset, Math.min(offset + this.options.bytesPerRow, displayBytes));
    html += this.renderRow(offset, rowBytes);
  }\<close>
  With \<open>bytesPerRow = 0\<close> the offset never advances, so the loop is a partial function:
  \<open>None\<close> is a loop that does not end.
\<close>

partial_function (option) render_loop ::
  "config \<Rightarrow> Uint8Array \<Rightarrow> nat \<Rightarrow> nat \<Rightarrow> hexRow list \<Rightarrow> hexRow list option" where
  "render_loop opts d displayBytes offset html =
     (if offset < displayBytes
      then render_loop opts d displayBytes (offset + bytesPerRow opts)
             (html @ [renderRow opts offset (slice_list d offset (min (offset + bytesPerRow opts) displayBytes))])
      else Some html)"

declare render_loop.simps [code]

text \<open>
  \<^verbatim>\<open>render() {
    if (!this.data || this.data.length === 0) { this.container.innerHTML = `... No data ...`; return; }
    const totalBytes = this.data.length;
    const displayBytes = Math.min(totalBytes, this.options.bytesPerRow * this.options.maxRows);
    const truncated = totalBytes > displayBytes;
    let html = '';
    if (this.options.showHeader) {
      html += `... ${this.formatSize(totalBytes)}${truncated ? ' (truncated)' : ''} ...`;
    }
    html += '<div class="hex-view-content">';
    for (...) { ... }
    if (truncated) { html += `... ${totalBytes - displayBytes} more bytes ...`; }
    html += '</div>';
    this.container.innerHTML = html;
    this.bindEvents();
  }\<close>
  \<open>bindEvents\<close> registers the hover listeners and changes nothing until the pointer moves.
\<close>

definition render :: "HexView \<Rightarrow> HexView option" where
  "render this =
     (case data this of
        None \<Rightarrow> Some (this\<lparr>innerHTML := NoData\<rparr>)
      | Some d \<Rightarrow>
          if length d = 0 then Some (this\<lparr>innerHTML := NoData\<rparr>)
          else
            (let totalBytes = length d;
                 displayBytes = min totalBytes (bytesPerRow (options this) * maxRows (options this));
                 truncated = (totalBytes > displayBytes);
                 header = (if showHeader (options this) then Some (totalBytes, truncated) else None)
             in case render_loop (options this) d displayBytes 0 [] of
                  None \<Rightarrow> None
                | Some html \<Rightarrow>
                    Some (this\<lparr>innerHTML :=
                      Content header html (if truncated then Some (totalBytes - displayBytes) else None)\<rparr>)))"

text \<open>
  \<^verbatim>\<open>setData(data) {
    if (typeof data === 'string') { this.data = new TextEncoder().encode(data); }
    else if (data instanceof ArrayBuffer) { this.data = new Uint8Array(data); }
    else if (data instanceof Uint8Array) { this.data = data; }
    else { this.data = null; }
    this.render();
  }\<close>
\<close>

datatype setData_arg =
  StringData jsstring | ArrayBufferData Uint8Array | Uint8ArrayData Uint8Array | OtherData

definition setData :: "world \<Rightarrow> HexView \<Rightarrow> setData_arg \<Rightarrow> HexView option" where
  "setData w this arg =
     render (this\<lparr>data :=
       (case arg of
          StringData str \<Rightarrow> Some (TextEncoder_encode w str)
        | ArrayBufferData buf \<Rightarrow> Some buf
        | Uint8ArrayData bytes \<Rightarrow> Some bytes
        | OtherData \<Rightarrow> None)\<rparr>)"

text \<open>\<^verbatim>\<open>clear() { this.data = null; this.render(); }\<close>\<close>

definition clear :: "HexView \<Rightarrow> HexView option" where
  "clear this = render (this\<lparr>data := None\<rparr>)"

text \<open>\<^verbatim>\<open>getData() { return this.data; }\<close>\<close>

definition getData :: "HexView \<Rightarrow> Uint8Array option" where
  "getData this = data this"

text \<open>
  \<^verbatim>\<open>getHexString() {
    if (!this.data) return '';
    return Array.from(this.data).map(b => b.toString(16).padStart(2, '0')).join('');
  }\<close>
\<close>

definition getHexString :: "HexView \<Rightarrow> jsstring" where
  "getHexString this =
     (case data this of
        None \<Rightarrow> []
      | Some d \<Rightarrow> concat (map (\<lambda>b. padStart 2 48 (toString16 (unat b))) d))"

section \<open>Auxiliary definitions for the statements\<close>

text \<open>
  What \<open>hexToBytes\<close> computes, read off the string two code units at a time: one byte for
  each complete pair, nothing for a last single unit.
\<close>

fun decodePairs :: "jsstring \<Rightarrow> Uint8Array" where
  "decodePairs (a # b # cs) = ToUint8 (parseInt16 [a, b]) # decodePairs cs"
| "decodePairs cs = []"

text \<open>
  A platform to evaluate the functions on: the encoder keeps the low byte of each code
  unit, the digest is twenty bytes \<open>0xff\<close>, MD5 is a fixed array of four words, and the
  random generator delivers 0, 1, 2, ... in turn.
\<close>

definition example_MD5 :: "Uint8Array \<Rightarrow> WordArray" where
  "example_MD5 d = \<lparr>words = [0x01020304, 0xfffefdfc, 0x80000000, 0x7fffffff], sigBytes = 16\<rparr>"

definition example_world :: world where
  "example_world =
     \<lparr>TextEncoder_encode = map ucast, digest_SHA1 = (\<lambda>d. [0xff, 0xff, 0xff, 0xff, 0xff, 0xff, 0xff, 0xff, 0xff, 0xff,
        0xff, 0xff, 0xff, 0xff, 0xff, 0xff, 0xff, 0xff, 0xff, 0xff]),
      CryptoJS_MD5 = Some example_MD5, random_source = of_nat, random_drawn = 0\<rparr>"

text \<open>
  The rows of a rendering, as the arguments of the calls of \<open>renderRow\<close>: row \<open>k\<close> starts
  at offset \<open>k * bpr\<close> and holds the bytes from there up to the next row or the end of the
  \<open>n\<close> displayed bytes. There are \<open>n / bpr\<close> rows, rounded up.
\<close>

definition rowCount :: "nat \<Rightarrow> nat \<Rightarrow> nat" where
  "rowCount bpr n = (n + bpr - 1) div bpr"

definition rowChunks :: "nat \<Rightarrow> nat \<Rightarrow> Uint8Array \<Rightarrow> (nat \<times> Uint8Array) list" where
  "rowChunks bpr n d =
     map (\<lambda>k. (k * bpr, slice_list d (k * bpr) (min (k * bpr + bpr) n))) [0 ..< rowCount bpr n]"

text \<open>The \<open>data-index\<close> attributes of the byte cells of a rendered row, in order.\<close>

fun cellIndex :: "hexCell \<Rightarrow> nat list" where
  "cellIndex (ByteCell i hex) = [i]"
| "cellIndex BlankCell = []"
| "cellIndex HalfGap = []"

definition dataIndices :: "hexRow \<Rightarrow> nat list" where
  "dataIndices row = concat (map cellIndex (hexBytes row))"

text \<open>A view and a buffer of 17 bytes to evaluate the rendering on.\<close>

definition example_view :: "nat \<Rightarrow> nat \<Rightarrow> Uint8Array \<Rightarrow> HexView" where
  "example_view bpr rows d =
     \<lparr>options = \<lparr>bytesPerRow = bpr, showHeader = True, showAscii = True, maxRows = rows\<rparr>,
      data = Some d, highlightedIndex = - 1, innerHTML = NoData\<rparr>"

definition example_bytes :: Uint8Array where
  "example_bytes = map (\<lambda>c. of_nat (of_char c)) ''Hello, hex viewer''"

section \<open>Hex strings: properties\<close>

lemma hexDigit_cases:
  assumes "d < 16"
  shows "d = 0 \<or> d = 1 \<or> d = 2 \<or> d = 3 \<or> d = 4 \<or> d = 5 \<or> d = 6 \<or> d = 7 \<or> d = 8 \<or> d = 9
    \<or> d = 10 \<or> d = 11 \<or> d = 12 \<or> d = 13 \<or> d = 14 \<or> d = (15::nat)"
  using assms by arith

lemma digitValue_hexDigit:
  assumes "d < 16" shows "digitValue (hexDigit d) = Some d"
  using hexDigit_cases [OF assms] by (elim disjE; simp add: hexDigit_def digitValue_def)

lemma hexDigit_plain:
  assumes "d < 16"
  shows "\<not> isWhiteSpace (hexDigit d) \<and> hexDigit d \<noteq> 0x2D \<and> hexDigit d \<noteq> 0x2B
     \<and> hexDigit d \<noteq> 0x78 \<and> hexDigit d \<noteq> 0x58"
  using hexDigit_cases [OF assms] by (elim disjE; simp add: hexDigit_def isWhiteSpace_def)

lemma parseInt16_digits:
  assumes "h < 16" "l < 16"
  shows "parseInt16 [hexDigit h, hexDigit l] = Some (int (16 * h + l))"
  using hexDigit_plain [OF assms(1)] hexDigit_plain [OF assms(2)]
    digitValue_hexDigit [OF assms(1)] digitValue_hexDigit [OF assms(2)]
  by (simp add: parseInt16_def Let_def)

lemma toString16_byte:
  "padStart 2 48 (toString16 (unat (b::u8))) = [hexDigit (unat b div 16), hexDigit (unat b mod 16)]"
proof (cases "unat b < 16")
  case True
  then show ?thesis
    by (simp add: toString16.simps [of "unat b"] padStart_def hexDigit_def)
next
  case False
  have "unat b < 256" using unsigned_less [of b, where ?'a = nat] by simp
  then have "unat b div 16 < 16" by simp
  with False show ?thesis
    by (simp add: toString16.simps [of "unat b"] toString16.simps [of "unat b div 16"] padStart_def)
qed

lemma ToUint8_byte: "ToUint8 (Some (int (16 * (unat (b::u8) div 16) + unat b mod 16))) = b"
  by (simp add: ToUint8_def)

lemma decodePairs_bytesToHex: "decodePairs (bytesToHex bs) = bs"
proof (induction bs)
  case Nil
  then show ?case by (simp add: bytesToHex_def)
next
  case (Cons b bs)
  have "unat b < 256" using unsigned_less [of b, where ?'a = nat] by simp
  then have "unat b div 16 < 16" "unat b mod 16 < 16" by simp_all
  then have "parseInt16 [hexDigit (unat b div 16), hexDigit (unat b mod 16)]
      = Some (int (16 * (unat b div 16) + unat b mod 16))"
    by (rule parseInt16_digits)
  with Cons show ?case
    using ToUint8_byte [of b] by (simp add: bytesToHex_def toString16_byte)
qed

lemma hexToBytes_loop_stop: "\<not> i < length hex \<Longrightarrow> hexToBytes_loop hex i bytes = bytes"
  by (simp add: hexToBytes_loop.simps [of hex i])

lemma hexToBytes_loop_step:
  "i < length hex \<Longrightarrow>
     hexToBytes_loop hex i bytes
       = hexToBytes_loop hex (i + 2) (bytes[i div 2 := ToUint8 (parseInt16 (substr hex i 2))])"
  by (simp add: hexToBytes_loop.simps [of hex i])

lemma hexToBytes_loop_decodePairs:
  "i = 2 * k \<Longrightarrow> k \<le> length hex div 2 \<Longrightarrow> length bytes = length hex div 2 \<Longrightarrow>
     hexToBytes_loop hex i bytes = take k bytes @ decodePairs (drop i hex)"
proof (induction hex i bytes arbitrary: k rule: hexToBytes_loop.induct)
  case (1 hex i bytes)
  show ?case
  proof (cases "i < length hex")
    case False
    then have "hexToBytes_loop hex i bytes = bytes" by (rule hexToBytes_loop_stop)
    moreover from False "1.prems" have "take k bytes = bytes" "drop i hex = []" by simp_all
    ultimately show ?thesis by simp
  next
    case True
    let ?v = "ToUint8 (parseInt16 (substr hex i 2))"
    note step = hexToBytes_loop_step [OF True, of bytes]
    show ?thesis
    proof (cases "i + 1 < length hex")
      case odd: False
      with True have len: "length hex = i + 1" by simp
      with "1.prems" have tk: "take k bytes = bytes" by simp
      from len have dr: "drop i hex = [hex ! i]"
        by (metis True Cons_nth_drop_Suc drop_all Suc_eq_plus1 le_refl)
      from len "1.prems" have "length bytes \<le> i div 2" by simp
      then have "bytes[i div 2 := ?v] = bytes" by (rule list_update_beyond)
      moreover from len have "hexToBytes_loop hex (i + 2) bytes = bytes"
        by (intro hexToBytes_loop_stop) simp
      ultimately show ?thesis using step tk dr by simp
    next
      case even: True
      then have d: "drop i hex = hex ! i # hex ! (i + 1) # drop (i + 2) hex"
        by (metis True Cons_nth_drop_Suc Suc_eq_plus1 add_2_eq_Suc')
      from even "1.prems" have k: "k < length bytes" by (simp; presburger)
      from "1.prems" have ik: "i div 2 = k" by simp
      have "hexToBytes_loop hex (i + 2) (bytes[i div 2 := ?v])
          = take (Suc k) (bytes[i div 2 := ?v]) @ decodePairs (drop (i + 2) hex)"
        using True "1.prems" k by (intro "1.IH") auto
      moreover have "take (Suc k) (bytes[k := ?v]) = take k bytes @ [?v]"
        using k by (simp add: take_Suc_conv_app_nth)
      moreover have "?v = ToUint8 (parseInt16 [hex ! i, hex ! (i + 1)])"
        using d by (simp add: substr_def)
      ultimately show ?thesis using step d ik by simp
    qed
  qed
qed

lemma hexToBytes_decodePairs: "hexToBytes hex = decodePairs hex"
  using hexToBytes_loop_decodePairs [of 0 0 hex "replicate (length hex div 2) 0"]
  by (simp add: hexToBytes_def)

lemma digitValue_plain:
  assumes "digitValue c = Some v"
  shows "\<not> isWhiteSpace c \<and> c \<noteq> 0x2D \<and> c \<noteq> 0x2B \<and> c \<noteq> 0x78 \<and> c \<noteq> 0x58"
  using assms
  by (auto simp: digitValue_def isWhiteSpace_def word_le_nat_alt split: if_splits)

lemma parseInt16_pair:
  assumes "digitValue a = Some h" "digitValue b = Some l"
  shows "parseInt16 [a, b] = Some (int (16 * h + l))"
  using digitValue_plain [OF assms(1)] digitValue_plain [OF assms(2)] assms
  by (simp add: parseInt16_def Let_def)

lemma length_decodePairs: "length (decodePairs hex) = length hex div 2"
  by (induction hex rule: decodePairs.induct) simp_all

lemma nth_decodePairs:
  "k < length hex div 2 \<Longrightarrow>
     decodePairs hex ! k = ToUint8 (parseInt16 [hex ! (2 * k), hex ! (2 * k + 1)])"
proof (induction hex arbitrary: k rule: decodePairs.induct)
  case (1 a b cs)
  then show ?case by (cases k) simp_all
qed simp_all

lemma bytesToHex_digits:
  "bytesToHex b = concat (map (\<lambda>x. [hexDigit (unat x div 16), hexDigit (unat x mod 16)]) b)"
  by (simp add: bytesToHex_def toString16_byte)

lemma length_bytesToHex: "length (bytesToHex b) = 2 * length b"
  by (induction b) (simp_all add: bytesToHex_digits)

lemma hexDigit_lowercase:
  assumes "d < 16" shows "hexDigit d \<in> set (js ''0123456789abcdef'')"
  using hexDigit_cases [OF assms] by (elim disjE; simp add: hexDigit_def js_def)

lemma set_bytesToHex: "set (bytesToHex b) \<subseteq> set (js ''0123456789abcdef'')"
proof (induction b)
  case Nil
  then show ?case by (simp add: bytesToHex_digits)
next
  case (Cons x b)
  have "unat x < 256" using unsigned_less [of x, where ?'a = nat] by simp
  then have "unat x div 16 < 16" "unat x mod 16 < 16" by simp_all
  then have "hexDigit (unat x div 16) \<in> set (js ''0123456789abcdef'')"
    "hexDigit (unat x mod 16) \<in> set (js ''0123456789abcdef'')"
    by (simp_all only: hexDigit_lowercase)
  with Cons show ?case by (simp add: bytesToHex_digits)
qed

lemma no_dash_bytesToHex: "filter (\<lambda>c. c \<noteq> 0x2D) (bytesToHex b) = bytesToHex b"
proof -
  have "c \<noteq> 0x2D" if "c \<in> set (bytesToHex b)" for c
    using that set_bytesToHex [of b] by (auto simp: js_def)
  then show ?thesis by (simp add: filter_id_conv)
qed

lemma groups_32:
  assumes "length hex = 32"
  shows "slice_list hex 0 8 @ slice_list hex 8 12 @ slice_list hex 12 16 @ slice_list hex 16 20
           @ slice_list hex 20 32 = hex"
proof -
  have "slice_list hex 0 8 @ slice_list hex 8 12 @ slice_list hex 12 16 @ slice_list hex 16 20
           @ slice_list hex 20 32 = take 32 hex"
    using take_add [of 8 4 hex] take_add [of 12 4 hex] take_add [of 16 4 hex] take_add [of 20 12 hex]
    by (simp add: slice_list_def)
  with assms show ?thesis by simp
qed

lemma no_dash_format:
  assumes "length b = 16"
  shows "filter (\<lambda>c. c \<noteq> 0x2D) (format b) = bytesToHex b"
proof -
  let ?hex = "bytesToHex b"
  have f: "filter (\<lambda>c. c \<noteq> 0x2D) (slice_list ?hex i j) = slice_list ?hex i j" for i j
  proof -
    have "set (slice_list ?hex i j) \<subseteq> set ?hex"
      by (auto simp: slice_list_def dest: in_set_takeD in_set_dropD)
    then have "c \<noteq> 0x2D" if "c \<in> set (slice_list ?hex i j)" for c
      using that set_bytesToHex [of b] by (auto simp: js_def)
    then show ?thesis by (simp add: filter_id_conv)
  qed
  from assms have "length ?hex = 32" by (simp add: length_bytesToHex)
  then have "slice_list ?hex 0 8 @ slice_list ?hex 8 12 @ slice_list ?hex 12 16 @ slice_list ?hex 16 20 @ slice_list ?hex 20 32 = ?hex"
    by (rule groups_32)
  then show ?thesis by (simp add: format_def Let_def f)
qed

section \<open>C2: hex encoding round trip\<close>

text \<open>
  Claim C2. For every byte buffer \<open>b\<close>, \<open>hexToBytes(bytesToHex(b))\<close> is \<open>b\<close> again.
  \<open>bytesToHex\<close> writes each byte as exactly two lowercase base-16 digits, high digit first,
  in the order of the bytes, so the text has twice as many code units as the buffer has
  bytes; the empty buffer gives the empty string, which decodes to the empty buffer.
\<close>

theorem hexToBytes_bytesToHex_roundtrip:
  "hexToBytes (bytesToHex b) = b
   \<and> bytesToHex b = concat (map (\<lambda>x. [hexDigit (unat x div 16), hexDigit (unat x mod 16)]) b)
   \<and> length (bytesToHex b) = 2 * length b
   \<and> set (bytesToHex b) \<subseteq> set (js ''0123456789abcdef'')
   \<and> bytesToHex [] = [] \<and> hexToBytes [] = []"
proof -
  have "hexToBytes (bytesToHex b) = b"
    by (simp add: hexToBytes_decodePairs decodePairs_bytesToHex)
  moreover have "bytesToHex [] = []" by (simp add: bytesToHex_def)
  moreover have "hexToBytes [] = []" by (simp add: hexToBytes_decodePairs)
  ultimately show ?thesis
    using bytesToHex_digits [of b] length_bytesToHex [of b] set_bytesToHex [of b] by simp
qed

section \<open>C5: hexToBytes on malformed text\<close>

text \<open>
  Claim C5, as amended. \<open>hexToBytes\<close> has no failure: for every string it returns a buffer
  of \<open>hex.length div 2\<close> bytes. Byte \<open>k\<close> is what \<open>parseInt(_, 16)\<close> makes of the code
  units \<open>2k\<close> and \<open>2k + 1\<close>, stored as an unsigned byte; for two base-16 digits that is
  sixteen times the first plus the second. A last unit without a partner is dropped.
\<close>

theorem hexToBytes_never_fails:
  "length (hexToBytes hex) = length hex div 2
   \<and> (\<forall>k < length hex div 2.
        hexToBytes hex ! k = ToUint8 (parseInt16 [hex ! (2 * k), hex ! (2 * k + 1)]))
   \<and> (\<forall>a b h l. digitValue a = Some h \<and> digitValue b = Some l \<longrightarrow>
        ToUint8 (parseInt16 [a, b]) = of_nat (16 * h + l))"
  by (simp add: hexToBytes_decodePairs length_decodePairs nth_decodePairs parseInt16_pair ToUint8_def)

text \<open>The statement at the three-unit string \<open>0aF\<close>: one byte, \<open>0x0a\<close>.\<close>

theorem hexToBytes_never_fails_witness:
  "length (hexToBytes (js ''0aF'')) = 1 \<and> hexToBytes (js ''0aF'') ! 0 = 10
   \<and> digitValue 0x30 = Some 0 \<and> digitValue 0x61 = Some 10"
  using hexToBytes_never_fails [of "js ''0aF''"]
  by (simp add: js_def digitValue_def parseInt16_def ToUint8_def isWhiteSpace_def)

text \<open>
  The claim as it was stated asks for a failure on odd length and on a pair that is not
  base-16. The code returns a buffer in both cases: \<open>abc\<close> gives the one byte \<open>0xab\<close>,
  \<open>zz\<close> gives the byte 0 (\<open>NaN\<close> stored into the typed array), and \<open>1g\<close> gives 1
  (\<open>parseInt\<close> stops at the first unit that is not a digit).
\<close>

theorem hexToBytes_FormatError_counterexample:
  "hexToBytes (js ''abc'') = [0xab] \<and> hexToBytes (js ''zz'') = [0] \<and> hexToBytes (js ''1g'') = [1]"
  by (simp add: hexToBytes_decodePairs js_def digitValue_def parseInt16_def ToUint8_def isWhiteSpace_def)

section \<open>C6: UUID.parse\<close>

text \<open>
  Claim C6, as amended. \<open>UUID.parse\<close> removes every \<open>-\<close> and hands the rest to
  \<open>hexToBytes\<close>, with no check of the number of digits or of the characters: it never
  fails, and returns half as many bytes (rounded down) as code units remain. The grouping
  is not looked at: two texts that agree once the \<open>-\<close> are removed parse to the same
  bytes. The canonical text of 16 bytes parses back to those bytes.
\<close>

theorem parse_no_validation:
  "parse uuid = hexToBytes (filter (\<lambda>c. c \<noteq> 0x2D) uuid)
   \<and> length (parse uuid) = length (filter (\<lambda>c. c \<noteq> 0x2D) uuid) div 2
   \<and> (filter (\<lambda>c. c \<noteq> 0x2D) uuid = filter (\<lambda>c. c \<noteq> 0x2D) uuid' \<longrightarrow> parse uuid = parse uuid')
   \<and> (length b = 16 \<longrightarrow> parse (format b) = b)"
proof -
  have "parse (format b) = b" if "length b = 16"
    using that by (simp add: parse_def no_dash_format hexToBytes_decodePairs decodePairs_bytesToHex)
  then show ?thesis
    by (simp add: parse_def hexToBytes_decodePairs length_decodePairs)
qed

text \<open>The statement at \<open>0a-ff\<close> and \<open>0-aff-\<close>, and at sixteen bytes \<open>0x5a\<close>.\<close>

theorem parse_no_validation_witness:
  "filter (\<lambda>c. c \<noteq> 0x2D) (js ''0a-ff'') = filter (\<lambda>c. c \<noteq> 0x2D) (js ''0-aff-'')
   \<and> parse (js ''0a-ff'') = parse (js ''0-aff-'')
   \<and> length (parse (js ''0a-ff'')) = 2
   \<and> length (replicate 16 (0x5a::u8)) = 16
   \<and> parse (format (replicate 16 0x5a)) = replicate 16 0x5a"
  using parse_no_validation [of "js ''0a-ff''" "js ''0-aff-''" "replicate 16 0x5a"]
  by (simp add: js_def parse_def hexToBytes_decodePairs)

text \<open>
  The claim as it was stated asks for a failure unless 32 base-16 digits remain. The code
  returns a buffer for four digits, for two letters that are no digits, and for 34 digits.
\<close>

theorem parse_FormatError_counterexample:
  "parse (js ''ab-cd'') = [0xab, 0xcd] \<and> parse (js ''zz'') = [0]
   \<and> parse (js ''6ba7b810-9dad-11d1-80b4-00c04fd430c8-ff'')
       = [0x6b, 0xa7, 0xb8, 0x10, 0x9d, 0xad, 0x11, 0xd1, 0x80, 0xb4, 0x00, 0xc0, 0x4f, 0xd4, 0x30, 0xc8, 0xff]"
  by (simp add: parse_def hexToBytes_decodePairs js_def digitValue_def parseInt16_def ToUint8_def isWhiteSpace_def)

section \<open>UUID: properties\<close>

lemma nth_bytesToHex_high:
  "i < length b \<Longrightarrow> bytesToHex b ! (2 * i) = hexDigit (unat (b ! i) div 16)"
proof (induction b arbitrary: i)
  case Nil
  then show ?case by simp
next
  case (Cons x b)
  then show ?case by (cases i) (simp_all add: bytesToHex_digits)
qed

lemma format_nth:
  assumes "length b = 16"
  shows "format b ! 14 = bytesToHex b ! 12" "format b ! 19 = bytesToHex b ! 16"
  using assms length_bytesToHex [of b]
  by (simp_all add: format_def Let_def slice_list_def nth_append)

lemma high_nibble_version:
  assumes "drop_bit 4 (x::u8) = of_nat v" "v < 16"
  shows "unat x div 16 = v"
proof -
  have "unat (drop_bit 4 x) = unat x div 16"
    by (simp add: unat_drop_bit_eq drop_bit_eq_div [where ?'a = nat])
  with assms show ?thesis by (simp add: unat_of_nat)
qed

lemma high_nibble_variant:
  assumes "drop_bit 6 (x::u8) = 2"
  shows "hexDigit (unat x div 16) \<in> set (js ''89ab'')"
proof -
  have "unat (drop_bit 6 x) = unat x div 64"
    by (simp add: unat_drop_bit_eq drop_bit_eq_div [where ?'a = nat])
  with assms have "unat x div 64 = 2" by simp
  have "unat x div 64 = unat x div 16 div 4" by (simp add: div_mult2_eq [symmetric])
  with \<open>unat x div 64 = 2\<close> have "unat x div 16 div 4 = 2" by simp
  then have "unat x div 16 = 8 \<or> unat x div 16 = 9 \<or> unat x div 16 = 10 \<or> unat x div 16 = 11"
    by arith
  then show ?thesis by (elim disjE; simp add: hexDigit_def js_def)
qed

lemma stamped_bytes:
  assumes "length bs = 16"
    and "b1 = bs[6 := (byteAt bs 6 AND 0x0f) OR V]"
    and "b2 = b1[8 := (byteAt b1 8 AND 0x3f) OR 0x80]"
  shows "length b2 = 16" "b2 ! 6 = (bs ! 6 AND 0x0f) OR V" "b2 ! 8 = (bs ! 8 AND 0x3f) OR 0x80"
  using assms by (simp_all add: byteAt_def)

lemma stamped_uuid:
  assumes len: "length bs = 16"
    and b1: "b1 = bs[6 := (byteAt bs 6 AND 0x0f) OR V]"
    and b2: "b2 = b1[8 := (byteAt b1 8 AND 0x3f) OR 0x80]"
    and V: "drop_bit 4 (((bs ! 6) AND 0x0f) OR V) = of_nat v" "v < 16"
  shows "length b2 = 16 \<and> drop_bit 4 (b2 ! 6) = of_nat v \<and> drop_bit 6 (b2 ! 8) = 2
         \<and> format b2 ! 14 = hexDigit v \<and> format b2 ! 19 \<in> set (js ''89ab'')"
proof -
  note sb = stamped_bytes [OF len b1 b2]
  have v6: "drop_bit 4 (b2 ! 6) = of_nat v" using sb(2) V(1) by simp
  have v8: "drop_bit 6 (b2 ! 8) = 2" using sb(3) by simp
  have "format b2 ! 14 = bytesToHex b2 ! (2 * 6)" using format_nth(1) [OF sb(1)] by simp
  also have "\<dots> = hexDigit (unat (b2 ! 6) div 16)" using sb(1) by (intro nth_bytesToHex_high) simp
  also have "\<dots> = hexDigit v" using high_nibble_version [OF v6 V(2)] by simp
  finally have d14: "format b2 ! 14 = hexDigit v" .
  have "format b2 ! 19 = bytesToHex b2 ! (2 * 8)" using format_nth(2) [OF sb(1)] by simp
  also have "\<dots> = hexDigit (unat (b2 ! 8) div 16)" using sb(1) by (intro nth_bytesToHex_high) simp
  finally have d19: "format b2 ! 19 \<in> set (js ''89ab'')" using high_nibble_variant [OF v8] by simp
  from sb(1) v6 v8 d14 d19 show ?thesis by simp
qed

lemma parse_NAMESPACE_DNS:
  "parse NAMESPACE_DNS
     = [0x6b, 0xa7, 0xb8, 0x10, 0x9d, 0xad, 0x11, 0xd1, 0x80, 0xb4, 0x00, 0xc0, 0x4f, 0xd4, 0x30, 0xc8]"
  by (simp add: NAMESPACE_DNS_def parse_def hexToBytes_decodePairs js_def digitValue_def parseInt16_def
      ToUint8_def isWhiteSpace_def)

section \<open>C1: version and variant of generated UUIDs\<close>

text \<open>
  Claim C1. Every UUID that \<open>v4\<close>, \<open>v3\<close> or \<open>v5\<close> returns is the formatting of 16 bytes in
  which the high nibble of byte 6 is the version (4, 3, 5) and the two high bits of byte 8
  are \<open>10\<close>. In the text, the 13th base-16 digit (position 14, after the hyphen at 8 and
  the one at 13) is the version digit, and the 17th (position 19) is one of \<open>8 9 a b\<close>.
  For \<open>v4\<close> this holds whatever the random generator delivers. For \<open>v3\<close> it holds when
  \<open>CryptoJS\<close> is there and its MD5 gives 16 significant bytes, for \<open>v5\<close> when the SHA-1
  digest has its 20 bytes.
\<close>

theorem uuid_version_variant:
  "(\<exists>bytes. fst (v4 w) = format bytes \<and> length bytes = 16
        \<and> drop_bit 4 (bytes ! 6) = 4 \<and> drop_bit 6 (bytes ! 8) = 2)
   \<and> [fst (v4 w) ! 14] = js ''4'' \<and> fst (v4 w) ! 19 \<in> set (js ''89ab'')
   \<and> (CryptoJS_MD5 w = Some MD5 \<and> sigBytes (MD5 (parse ns @ stringToBytes w name)) = 16 \<longrightarrow>
        (\<exists>bytes. v3 w ns name = Inr (format bytes) \<and> length bytes = 16
           \<and> drop_bit 4 (bytes ! 6) = 3 \<and> drop_bit 6 (bytes ! 8) = 2
           \<and> [format bytes ! 14] = js ''3'' \<and> format bytes ! 19 \<in> set (js ''89ab'')))
   \<and> (length (sha1 w (parse ns @ stringToBytes w name)) = 20 \<longrightarrow>
        (\<exists>bytes. v5 w ns name = format bytes \<and> length bytes = 16
           \<and> drop_bit 4 (bytes ! 6) = 5 \<and> drop_bit 6 (bytes ! 8) = 2
           \<and> [format bytes ! 14] = js ''5'' \<and> format bytes ! 19 \<in> set (js ''89ab'')))"
proof -
  define r where "r = map (random_source w) [random_drawn w ..< random_drawn w + 16]"
  define r1 where "r1 = r[6 := (byteAt r 6 AND 0x0f) OR 0x40]"
  define r2 where "r2 = r1[8 := (byteAt r1 8 AND 0x3f) OR 0x80]"
  have lr: "length r = 16" by (simp add: r_def)
  have "drop_bit 4 (((r ! 6) AND 0x0f) OR 0x40) = of_nat 4" by simp
  from stamped_uuid [OF lr r1_def r2_def this]
  have p4: "length r2 = 16 \<and> drop_bit 4 (r2 ! 6) = 4 \<and> drop_bit 6 (r2 ! 8) = 2
         \<and> format r2 ! 14 = hexDigit 4 \<and> format r2 ! 19 \<in> set (js ''89ab'')" by simp
  have v4: "fst (v4 w) = format r2"
    by (simp only: v4_def getRandomBytes_def Let_def r2_def r1_def r_def split_conv fst_conv)
  have c4: "(\<exists>bytes. fst (v4 w) = format bytes \<and> length bytes = 16
        \<and> drop_bit 4 (bytes ! 6) = 4 \<and> drop_bit 6 (bytes ! 8) = 2)
     \<and> [fst (v4 w) ! 14] = js ''4'' \<and> fst (v4 w) ! 19 \<in> set (js ''89ab'')"
    using p4 v4 by (auto simp: hexDigit_def js_def)
  have c3: "\<exists>bytes. v3 w ns name = Inr (format bytes) \<and> length bytes = 16
           \<and> drop_bit 4 (bytes ! 6) = 3 \<and> drop_bit 6 (bytes ! 8) = 2
           \<and> [format bytes ! 14] = js ''3'' \<and> format bytes ! 19 \<in> set (js ''89ab'')"
    if m: "CryptoJS_MD5 w = Some MD5" and sb: "sigBytes (MD5 (parse ns @ stringToBytes w name)) = 16"
  proof -
    define h where "h = wordArrayToBytes (MD5 (parse ns @ stringToBytes w name))"
    define h1 where "h1 = h[6 := (byteAt h 6 AND 0x0f) OR 0x30]"
    define h2 where "h2 = h1[8 := (byteAt h1 8 AND 0x3f) OR 0x80]"
    have lh: "length h = 16" using sb by (simp add: h_def wordArrayToBytes_def)
    have "drop_bit 4 (((h ! 6) AND 0x0f) OR 0x30) = of_nat 3" by simp
    from stamped_uuid [OF lh h1_def h2_def this]
    have p: "length h2 = 16 \<and> drop_bit 4 (h2 ! 6) = 3 \<and> drop_bit 6 (h2 ! 8) = 2
         \<and> format h2 ! 14 = hexDigit 3 \<and> format h2 ! 19 \<in> set (js ''89ab'')" by simp
    have "v3 w ns name = Inr (format h2)"
      using m by (simp only: v3_def Let_def h2_def h1_def h_def option.case)
    with p show ?thesis by (auto simp: hexDigit_def js_def)
  qed
  have c5: "\<exists>bytes. v5 w ns name = format bytes \<and> length bytes = 16
           \<and> drop_bit 4 (bytes ! 6) = 5 \<and> drop_bit 6 (bytes ! 8) = 2
           \<and> [format bytes ! 14] = js ''5'' \<and> format bytes ! 19 \<in> set (js ''89ab'')"
    if l: "length (sha1 w (parse ns @ stringToBytes w name)) = 20"
  proof -
    define h where "h = slice_list (sha1 w (parse ns @ stringToBytes w name)) 0 16"
    define h1 where "h1 = h[6 := (byteAt h 6 AND 0x0f) OR 0x50]"
    define h2 where "h2 = h1[8 := (byteAt h1 8 AND 0x3f) OR 0x80]"
    have lh: "length h = 16" using l by (simp add: h_def slice_list_def)
    have "drop_bit 4 (((h ! 6) AND 0x0f) OR 0x50) = of_nat 5" by simp
    from stamped_uuid [OF lh h1_def h2_def this]
    have p: "length h2 = 16 \<and> drop_bit 4 (h2 ! 6) = 5 \<and> drop_bit 6 (h2 ! 8) = 2
         \<and> format h2 ! 14 = hexDigit 5 \<and> format h2 ! 19 \<in> set (js ''89ab'')" by simp
    have "v5 w ns name = format h2"
      by (simp only: v5_def Let_def h2_def h1_def h_def)
    with p show ?thesis by (auto simp: hexDigit_def js_def)
  qed
  from c4 c3 c5 show ?thesis by blast
qed

text \<open>The statement on the platform above, for the DNS namespace and the name \<open>a\<close>.\<close>

theorem uuid_version_variant_witness:
  "CryptoJS_MD5 example_world = Some example_MD5
   \<and> sigBytes (example_MD5 (parse NAMESPACE_DNS @ stringToBytes example_world (js ''a''))) = 16
   \<and> length (sha1 example_world (parse NAMESPACE_DNS @ stringToBytes example_world (js ''a''))) = 20
   \<and> (\<exists>bytes. v3 example_world NAMESPACE_DNS (js ''a'') = Inr (format bytes) \<and> length bytes = 16
           \<and> drop_bit 4 (bytes ! 6) = 3 \<and> drop_bit 6 (bytes ! 8) = 2
           \<and> [format bytes ! 14] = js ''3'' \<and> format bytes ! 19 \<in> set (js ''89ab''))
   \<and> (\<exists>bytes. v5 example_world NAMESPACE_DNS (js ''a'') = format bytes \<and> length bytes = 16
           \<and> drop_bit 4 (bytes ! 6) = 5 \<and> drop_bit 6 (bytes ! 8) = 2
           \<and> [format bytes ! 14] = js ''5'' \<and> format bytes ! 19 \<in> set (js ''89ab''))
   \<and> [fst (v4 example_world) ! 14] = js ''4''"
proof -
  have h1: "CryptoJS_MD5 example_world = Some example_MD5"
    by (simp add: example_world_def)
  have h2: "sigBytes (example_MD5 (parse NAMESPACE_DNS @ stringToBytes example_world (js ''a''))) = 16"
    by (simp add: example_MD5_def)
  have h3: "length (sha1 example_world (parse NAMESPACE_DNS @ stringToBytes example_world (js ''a''))) = 20"
    by (simp add: sha1_def example_world_def)
  from uuid_version_variant [of example_world example_MD5 NAMESPACE_DNS "js ''a''"] h1 h2 h3
  show ?thesis by blast
qed

section \<open>C7: v5 is deterministic\<close>

text \<open>
  Claim C7. The result of \<open>v5\<close> depends on the namespace, the name, the UTF-8 encoder and
  the SHA-1 digest, and on nothing else: two calls with the same namespace and name, made
  in any two states of the platform that have the same encoder and digest (whatever the
  random generator has delivered in between, whether \<open>CryptoJS\<close> is loaded or not), return
  the same string, also for the empty name. For the DNS namespace and \<open>example.com\<close> the
  value is fixed by the digest of the 16 namespace bytes followed by the encoded name.
\<close>

theorem v5_deterministic:
  assumes "TextEncoder_encode w = TextEncoder_encode w'" and "digest_SHA1 w = digest_SHA1 w'"
  shows "v5 w ns name = v5 w' ns name
    \<and> v5 w ns [] = v5 w' ns []
    \<and> v5 w NAMESPACE_DNS (js ''example.com'')
        = (let hashBytes = digest_SHA1 w'
                 ([0x6b, 0xa7, 0xb8, 0x10, 0x9d, 0xad, 0x11, 0xd1, 0x80, 0xb4, 0x00, 0xc0, 0x4f, 0xd4, 0x30, 0xc8]
                  @ TextEncoder_encode w' (js ''example.com''));
               bytes = take 16 hashBytes;
               bytes = bytes[6 := (byteAt bytes 6 AND 0x0f) OR 0x50];
               bytes = bytes[8 := (byteAt bytes 8 AND 0x3f) OR 0x80]
           in format bytes)"
proof -
  have eq: "v5 w n m = v5 w' n m" for n m
    using assms by (simp only: v5_def stringToBytes_def sha1_def)
  have "v5 w' NAMESPACE_DNS (js ''example.com'')
        = (let hashBytes = digest_SHA1 w'
                 ([0x6b, 0xa7, 0xb8, 0x10, 0x9d, 0xad, 0x11, 0xd1, 0x80, 0xb4, 0x00, 0xc0, 0x4f, 0xd4, 0x30, 0xc8]
                  @ TextEncoder_encode w' (js ''example.com''));
               bytes = take 16 hashBytes;
               bytes = bytes[6 := (byteAt bytes 6 AND 0x0f) OR 0x50];
               bytes = bytes[8 := (byteAt bytes 8 AND 0x3f) OR 0x80]
           in format bytes)"
    by (simp only: v5_def stringToBytes_def sha1_def parse_NAMESPACE_DNS Let_def slice_list_def
        drop_0 diff_zero)
  with eq show ?thesis by simp
qed

text \<open>
  The statement for two states of the platform above that differ in the random generator
  and in \<open>CryptoJS\<close>: \<open>v5\<close> gives the same string in both, \<open>v4\<close> does not.
\<close>

theorem v5_deterministic_witness:
  "TextEncoder_encode example_world = TextEncoder_encode (example_world\<lparr>random_drawn := 16, CryptoJS_MD5 := None\<rparr>)
   \<and> digest_SHA1 example_world = digest_SHA1 (example_world\<lparr>random_drawn := 16, CryptoJS_MD5 := None\<rparr>)
   \<and> v5 example_world NAMESPACE_DNS (js ''example.com'')
       = v5 (example_world\<lparr>random_drawn := 16, CryptoJS_MD5 := None\<rparr>) NAMESPACE_DNS (js ''example.com'')
   \<and> v5 example_world NAMESPACE_DNS (js ''example.com'') = js ''ffffffff-ffff-5fff-bfff-ffffffffffff''
   \<and> fst (v4 example_world) \<noteq> fst (v4 (example_world\<lparr>random_drawn := 16, CryptoJS_MD5 := None\<rparr>))"
proof -
  let ?w' = "example_world\<lparr>random_drawn := 16, CryptoJS_MD5 := None\<rparr>"
  have h1: "TextEncoder_encode example_world = TextEncoder_encode ?w'" by simp
  have h2: "digest_SHA1 example_world = digest_SHA1 ?w'" by simp
  have v: "v5 example_world NAMESPACE_DNS (js ''example.com'') = js ''ffffffff-ffff-5fff-bfff-ffffffffffff''"
    by (simp add: v5_def sha1_def example_world_def slice_list_def byteAt_def format_def Let_def
        bytesToHex_digits hexDigit_def js_def)
  have r: "fst (v4 example_world) \<noteq> fst (v4 ?w')"
    by (simp add: v4_def getRandomBytes_def example_world_def byteAt_def format_def slice_list_def
        Let_def bytesToHex_digits hexDigit_def upt_rec)
  from v5_deterministic [OF h1 h2, of NAMESPACE_DNS "js ''example.com''"]
  have d: "v5 example_world NAMESPACE_DNS (js ''example.com'') = v5 ?w' NAMESPACE_DNS (js ''example.com'')"
    by (rule conjunct1)
  from h1 h2 d v r show ?thesis by (intro conjI)
qed

section \<open>C8: v3 without the MD5 primitive\<close>

text \<open>
  Claim C8. When \<open>CryptoJS\<close> is not defined, \<open>v3\<close> fails, for every namespace and name,
  with the error it raises itself for the missing primitive, \<open>CryptoJS is required for
  UUID v3\<close>: the check comes first, so no lookup of \<open>CryptoJS\<close> is attempted and no value
  is returned.
\<close>

theorem v3_requires_CryptoJS:
  "CryptoJS_MD5 w = None \<Longrightarrow> v3 w ns name = Inl (Error ''CryptoJS is required for UUID v3'')"
  by (simp add: v3_def)

theorem v3_requires_CryptoJS_witness:
  "CryptoJS_MD5 (example_world\<lparr>CryptoJS_MD5 := None\<rparr>) = None
   \<and> v3 (example_world\<lparr>CryptoJS_MD5 := None\<rparr>) NAMESPACE_DNS (js ''example.com'')
       = Inl (Error ''CryptoJS is required for UUID v3'')"
  using v3_requires_CryptoJS [of "example_world\<lparr>CryptoJS_MD5 := None\<rparr>" NAMESPACE_DNS "js ''example.com''"]
  by simp

section \<open>HexView: properties\<close>

lemma render_loop_stop:
  "\<not> offset < displayBytes \<Longrightarrow> render_loop opts d displayBytes offset html = Some html"
  by (subst render_loop.simps) simp

lemma render_loop_step:
  "offset < displayBytes \<Longrightarrow>
     render_loop opts d displayBytes offset html
       = render_loop opts d displayBytes (offset + bytesPerRow opts)
           (html @ [renderRow opts offset
              (slice_list d offset (min (offset + bytesPerRow opts) displayBytes))])"
  by (subst render_loop.simps) simp


lemma rowCount_0: "rowCount bpr 0 = 0"
  by (cases "bpr = 0") (simp_all add: rowCount_def)

lemma rowCount_Suc:
  assumes "0 < bpr" "0 < n"
  shows "rowCount bpr n = Suc (rowCount bpr (n - bpr))"
proof (cases "bpr \<le> n")
  case True
  define m where "m = n - bpr + bpr - 1"
  have "n + bpr - 1 = m + bpr" using True assms by (simp add: m_def)
  then have "(n + bpr - 1) div bpr = (m + bpr) div bpr" by (rule arg_cong)
  also have "\<dots> = Suc (m div bpr)" using assms(1) by simp
  finally show ?thesis by (simp only: rowCount_def m_def)
next
  case False
  define m where "m = n + bpr - 1"
  have "bpr \<le> m" "m < 2 * bpr" using assms False by (simp_all add: m_def)
  then have "m div bpr = 1"
    by (intro div_nat_eqI) simp_all
  moreover have "(n - bpr + bpr - 1) div bpr = 0" using False assms by simp
  ultimately show ?thesis by (simp only: rowCount_def m_def One_nat_def)
qed

lemma map_upt_Suc': "map f [0 ..< Suc n] = f 0 # map (\<lambda>k. f (Suc k)) [0 ..< n]"
  by (simp only: map_upt_Suc)

lemma render_loop_rows:
  assumes "0 < bytesPerRow opts"
  shows "render_loop opts d displayBytes offset html
    = Some (html @ map (\<lambda>k. renderRow opts (offset + k * bytesPerRow opts)
                (slice_list d (offset + k * bytesPerRow opts)
                   (min (offset + k * bytesPerRow opts + bytesPerRow opts) displayBytes)))
              [0 ..< rowCount (bytesPerRow opts) (displayBytes - offset)])"
proof (induction "displayBytes - offset" arbitrary: offset html rule: less_induct)
  case less
  let ?bpr = "bytesPerRow opts"
  let ?R = "\<lambda>off. renderRow opts off (slice_list d off (min (off + ?bpr) displayBytes))"
  show ?case
  proof (cases "offset < displayBytes")
    case False
    then have "displayBytes - offset = 0" by simp
    with False show ?thesis by (simp add: render_loop_stop rowCount_0)
  next
    case True
    then have smaller: "displayBytes - (offset + ?bpr) < displayBytes - offset"
      using assms by simp
    have cnt: "rowCount ?bpr (displayBytes - offset)
        = Suc (rowCount ?bpr (displayBytes - (offset + ?bpr)))"
      using rowCount_Suc [OF assms, of "displayBytes - offset"] True by simp
    have "render_loop opts d displayBytes offset html
        = render_loop opts d displayBytes (offset + ?bpr) (html @ [?R offset])"
      using True by (rule render_loop_step)
    also have "\<dots> = Some ((html @ [?R offset])
        @ map (\<lambda>k. ?R (offset + ?bpr + k * ?bpr)) [0 ..< rowCount ?bpr (displayBytes - (offset + ?bpr))])"
      by (rule less.hyps [OF smaller])
    also have "(html @ [?R offset])
        @ map (\<lambda>k. ?R (offset + ?bpr + k * ?bpr)) [0 ..< rowCount ?bpr (displayBytes - (offset + ?bpr))]
      = html @ map (\<lambda>k. ?R (offset + k * ?bpr)) [0 ..< rowCount ?bpr (displayBytes - offset)]"
      unfolding cnt map_upt_Suc' by (simp add: add.assoc)
    finally show ?thesis .
  qed
qed

lemma render_loop_chunks:
  assumes "0 < bytesPerRow opts \<or> displayBytes = 0"
  shows "render_loop opts d displayBytes 0 []
    = Some (map (\<lambda>(offset, bytes). renderRow opts offset bytes) (rowChunks (bytesPerRow opts) displayBytes d))"
proof (cases "0 < bytesPerRow opts")
  case True
  then show ?thesis
    using render_loop_rows [OF True, of d displayBytes 0 "[]"]
    by (simp add: rowChunks_def comp_def)
next
  case False
  with assms have "displayBytes = 0" by simp
  then show ?thesis by (simp add: render_loop_stop rowChunks_def rowCount_0)
qed

lemma render_content:
  assumes "data this = Some d" "d \<noteq> []"
  shows "render this = Some (this\<lparr>innerHTML :=
      Content
        (if showHeader (options this)
         then Some (length d, min (length d) (bytesPerRow (options this) * maxRows (options this)) < length d)
         else None)
        (map (\<lambda>(offset, bytes). renderRow (options this) offset bytes)
           (rowChunks (bytesPerRow (options this))
              (min (length d) (bytesPerRow (options this) * maxRows (options this))) d))
        (if min (length d) (bytesPerRow (options this) * maxRows (options this)) < length d
         then Some (length d - min (length d) (bytesPerRow (options this) * maxRows (options this)))
         else None)\<rparr>)"
proof -
  let ?db = "min (length d) (bytesPerRow (options this) * maxRows (options this))"
  have "0 < bytesPerRow (options this) \<or> ?db = 0" by auto
  then have "render_loop (options this) d ?db 0 []
      = Some (map (\<lambda>(offset, bytes). renderRow (options this) offset bytes)
                (rowChunks (bytesPerRow (options this)) ?db d))"
    by (rule render_loop_chunks)
  with assms show ?thesis by (simp add: render_def Let_def)
qed

lemma render_empty:
  assumes "data this = None \<or> data this = Some []"
  shows "render this = Some (this\<lparr>innerHTML := NoData\<rparr>)"
  using assms by (auto simp: render_def)

lemma rowCount_less_iff:
  assumes "0 < bpr"
  shows "k < rowCount bpr n \<longleftrightarrow> k * bpr < n"
proof -
  have "k < rowCount bpr n \<longleftrightarrow> Suc k \<le> (n + bpr - 1) div bpr"
    by (simp add: rowCount_def Suc_le_eq)
  also have "\<dots> \<longleftrightarrow> Suc k * bpr \<le> n + bpr - 1"
    using assms by (rule less_eq_div_iff_mult_less_eq)
  also have "\<dots> \<longleftrightarrow> k * bpr < n"
    using assms by auto
  finally show ?thesis .
qed

lemma length_rowChunks: "length (rowChunks bpr n d) = rowCount bpr n"
  by (simp add: rowChunks_def)

lemma nth_rowChunks:
  "i < rowCount bpr n \<Longrightarrow>
     rowChunks bpr n d ! i = (i * bpr, slice_list d (i * bpr) (min (i * bpr + bpr) n))"
  by (simp add: rowChunks_def)

lemma concat_rowChunks_upto:
  assumes "0 < bpr" "m \<le> rowCount bpr n"
  shows "concat (map (\<lambda>k. slice_list d (k * bpr) (min (k * bpr + bpr) n)) [0 ..< m])
    = take (min (m * bpr) n) d"
  using assms(2)
proof (induction m)
  case 0
  then show ?case by simp
next
  case (Suc m)
  then have "m < rowCount bpr n" by simp
  then have lt: "m * bpr < n" using rowCount_less_iff [OF assms(1)] by simp
  have "take (min (m * bpr) n) d @ slice_list d (m * bpr) (min (m * bpr + bpr) n)
      = take (m * bpr) d @ take (min (m * bpr + bpr) n - m * bpr) (drop (m * bpr) d)"
    using lt by (simp add: slice_list_def min_def)
  also have "\<dots> = take (m * bpr + (min (m * bpr + bpr) n - m * bpr)) d"
    by (simp only: take_add)
  also have "m * bpr + (min (m * bpr + bpr) n - m * bpr) = min (Suc m * bpr) n"
    using lt by (simp add: min_def)
  finally show ?case using Suc by simp
qed

lemma concat_rowChunks:
  assumes "n = 0 \<or> 0 < bpr"
  shows "concat (map snd (rowChunks bpr n d)) = take n d"
proof (cases "0 < bpr")
  case True
  have "\<not> rowCount bpr n * bpr < n"
    using rowCount_less_iff [OF True, of "rowCount bpr n" n] by simp
  then have "min (rowCount bpr n * bpr) n = n" by simp
  then show ?thesis
    using concat_rowChunks_upto [OF True, of "rowCount bpr n" n d]
    by (simp add: rowChunks_def comp_def)
next
  case False
  with assms have "n = 0" by simp
  then show ?thesis by (simp add: rowChunks_def rowCount_0)
qed

lemma rowChunks_sizes:
  assumes "0 < bpr" "n \<le> length d" "i < rowCount bpr n"
  shows "fst (rowChunks bpr n d ! i) = i * bpr"
    and "0 < length (snd (rowChunks bpr n d ! i))"
    and "length (snd (rowChunks bpr n d ! i)) \<le> bpr"
    and "Suc i < rowCount bpr n \<Longrightarrow> length (snd (rowChunks bpr n d ! i)) = bpr"
proof -
  from assms(3) have lt: "i * bpr < n" using rowCount_less_iff [OF assms(1)] by simp
  have len: "length (snd (rowChunks bpr n d ! i)) = min (i * bpr + bpr) n - i * bpr"
    using assms(2,3) lt by (simp add: nth_rowChunks slice_list_def)
  show "fst (rowChunks bpr n d ! i) = i * bpr" using assms(3) by (simp add: nth_rowChunks)
  show "0 < length (snd (rowChunks bpr n d ! i))" using len lt assms(1) by simp
  show "length (snd (rowChunks bpr n d ! i)) \<le> bpr" using len by simp
  show "length (snd (rowChunks bpr n d ! i)) = bpr" if "Suc i < rowCount bpr n"
  proof -
    from that have "Suc i * bpr < n" using rowCount_less_iff [OF assms(1)] by simp
    with len show ?thesis by simp
  qed
qed

lemma concat_cells:
  "concat (map (\<lambda>i. if i < n then [f i] else []) [0 ..< m]) = map f [0 ..< min n m]"
proof (induction m)
  case 0
  then show ?case by simp
next
  case (Suc m)
  have "min n (Suc m) = (if m < n then Suc m else min n m)" by simp
  with Suc show ?case by simp
qed

lemma cellIndex_cells:
  "concat (map cellIndex (concat (map (\<lambda>i.
       [if i < n then ByteCell (offset + i) (h i) else BlankCell] @ (if i = 7 then [HalfGap] else []))
     xs)))
   = concat (map (\<lambda>i. if i < n then [offset + i] else []) xs)"
  by (induction xs) simp_all

lemma dataIndices_renderRow:
  assumes "length bytes \<le> bytesPerRow opts"
  shows "dataIndices (renderRow opts offset bytes) = [offset ..< offset + length bytes]"
proof -
  have "dataIndices (renderRow opts offset bytes)
      = concat (map (\<lambda>i. if i < length bytes then [offset + i] else []) [0 ..< bytesPerRow opts])"
    unfolding dataIndices_def renderRow_def Let_def hexRow.simps by (rule cellIndex_cells)
  also have "\<dots> = map (\<lambda>i. offset + i) [0 ..< min (length bytes) (bytesPerRow opts)]"
    by (rule concat_cells)
  also have "\<dots> = [offset ..< offset + length bytes]"
    using assms map_add_upt [of offset "length bytes"] by (simp add: min_def add.commute)
  finally show ?thesis .
qed

lemma rowChunks_17:
  assumes "length d = 17"
  shows "rowChunks 16 17 d = [(0, take 16 d), (16, [d ! 16])]"
proof -
  have "rowCount 16 17 = 2" by (simp add: rowCount_def)
  moreover have "[0 ..< 2] = [0, Suc 0]" by (simp add: upt_rec)
  moreover have "take 1 (drop 16 d) = [d ! 16]"
    using assms Cons_nth_drop_Suc [of 16 d] by simp
  ultimately show ?thesis by (simp add: rowChunks_def slice_list_def)
qed

lemma render_frame: "\<exists>v. render this = Some (this\<lparr>innerHTML := v\<rparr>)"
proof (cases "data this = None \<or> data this = Some []")
  case True
  then show ?thesis using render_empty by blast
next
  case False
  then obtain d where "data this = Some d" "d \<noteq> []" by auto
  then show ?thesis using render_content by blast
qed

section \<open>C3: the rows of a rendering\<close>

text \<open>
  Claim C3. With no buffer or an empty one, \<open>render\<close> shows the "No data" state, which has
  no rows. With a non-empty buffer, \<open>render\<close> ends and the rows it shows are the renderings
  of chunks of the buffer: put one after the other, the chunks are exactly the first
  \<open>min(length, bytesPerRow * maxRows)\<close> bytes; chunk \<open>i\<close> starts at offset
  \<open>i * bytesPerRow\<close>, is never empty and never longer than \<open>bytesPerRow\<close>, and every chunk
  but the last has exactly \<open>bytesPerRow\<close> bytes; the byte cells of its row carry the indices
  of its bytes. For 17 bytes and \<open>bytesPerRow = 16\<close> (with room for two rows, as with the
  default \<open>maxRows = 100\<close>) there are exactly two rows, the second of the single byte 16.
\<close>

theorem render_rows_partition:
  "(data this = None \<or> data this = Some [] \<longrightarrow> render this = Some (this\<lparr>innerHTML := NoData\<rparr>))
   \<and> (data this = Some d \<and> d \<noteq> [] \<longrightarrow>
       (\<exists>header chunks more.
          render this = Some (this\<lparr>innerHTML :=
            Content header (map (\<lambda>(offset, bytes). renderRow (options this) offset bytes) chunks) more\<rparr>)
        \<and> concat (map snd chunks)
            = take (min (length d) (bytesPerRow (options this) * maxRows (options this))) d
        \<and> (\<forall>i < length chunks.
              fst (chunks ! i) = i * bytesPerRow (options this)
            \<and> 0 < length (snd (chunks ! i))
            \<and> length (snd (chunks ! i)) \<le> bytesPerRow (options this)
            \<and> (Suc i < length chunks \<longrightarrow> length (snd (chunks ! i)) = bytesPerRow (options this))
            \<and> dataIndices (renderRow (options this) (fst (chunks ! i)) (snd (chunks ! i)))
                = [fst (chunks ! i) ..< fst (chunks ! i) + length (snd (chunks ! i))])))
   \<and> (data this = Some d \<and> length d = 17 \<and> bytesPerRow (options this) = 16 \<and> 2 \<le> maxRows (options this) \<longrightarrow>
       render this = Some (this\<lparr>innerHTML :=
          Content (if showHeader (options this) then Some (17, False) else None)
            [renderRow (options this) 0 (take 16 d), renderRow (options this) 16 [d ! 16]] None\<rparr>))"
proof (intro conjI impI)
  assume "data this = None \<or> data this = Some []"
  then show "render this = Some (this\<lparr>innerHTML := NoData\<rparr>)" by (rule render_empty)
next
  assume a: "data this = Some d \<and> d \<noteq> []"
  let ?bpr = "bytesPerRow (options this)"
  let ?n = "min (length d) (?bpr * maxRows (options this))"
  let ?chunks = "rowChunks ?bpr ?n d"
  have z: "?n = 0 \<or> 0 < ?bpr" by auto
  have c: "concat (map snd ?chunks) = take ?n d" using z by (rule concat_rowChunks)
  have s: "fst (?chunks ! i) = i * ?bpr \<and> 0 < length (snd (?chunks ! i))
      \<and> length (snd (?chunks ! i)) \<le> ?bpr
      \<and> (Suc i < length ?chunks \<longrightarrow> length (snd (?chunks ! i)) = ?bpr)
      \<and> dataIndices (renderRow (options this) (fst (?chunks ! i)) (snd (?chunks ! i)))
          = [fst (?chunks ! i) ..< fst (?chunks ! i) + length (snd (?chunks ! i))]"
    if "i < length ?chunks" for i
  proof -
    from that have i: "i < rowCount ?bpr ?n" by (simp only: length_rowChunks)
    have pos: "0 < ?bpr"
    proof (rule ccontr)
      assume "\<not> 0 < ?bpr"
      then have "rowCount ?bpr ?n = 0" by (simp add: rowCount_0)
      with i show False by simp
    qed
    have le: "?n \<le> length d" by simp
    note sz = rowChunks_sizes [OF pos le i]
    from sz(3) have "dataIndices (renderRow (options this) (fst (?chunks ! i)) (snd (?chunks ! i)))
          = [fst (?chunks ! i) ..< fst (?chunks ! i) + length (snd (?chunks ! i))]"
      by (rule dataIndices_renderRow)
    with sz show ?thesis by (simp only: length_rowChunks) simp
  qed
  from a have "render this = Some (this\<lparr>innerHTML :=
      Content
        (if showHeader (options this) then Some (length d, ?n < length d) else None)
        (map (\<lambda>(offset, bytes). renderRow (options this) offset bytes) ?chunks)
        (if ?n < length d then Some (length d - ?n) else None)\<rparr>)"
    by (intro render_content) simp_all
  with c s show "\<exists>header chunks more.
          render this = Some (this\<lparr>innerHTML :=
            Content header (map (\<lambda>(offset, bytes). renderRow (options this) offset bytes) chunks) more\<rparr>)
        \<and> concat (map snd chunks) = take ?n d
        \<and> (\<forall>i < length chunks.
              fst (chunks ! i) = i * ?bpr
            \<and> 0 < length (snd (chunks ! i))
            \<and> length (snd (chunks ! i)) \<le> ?bpr
            \<and> (Suc i < length chunks \<longrightarrow> length (snd (chunks ! i)) = ?bpr)
            \<and> dataIndices (renderRow (options this) (fst (chunks ! i)) (snd (chunks ! i)))
                = [fst (chunks ! i) ..< fst (chunks ! i) + length (snd (chunks ! i))])"
    by blast
next
  assume a: "data this = Some d \<and> length d = 17 \<and> bytesPerRow (options this) = 16 \<and> 2 \<le> maxRows (options this)"
  then have n: "min (length d) (bytesPerRow (options this) * maxRows (options this)) = 17" by simp
  from a have "d \<noteq> []" by auto
  with a have "render this = Some (this\<lparr>innerHTML :=
      Content
        (if showHeader (options this) then Some (length d, min (length d) (bytesPerRow (options this) * maxRows (options this)) < length d) else None)
        (map (\<lambda>(offset, bytes). renderRow (options this) offset bytes)
           (rowChunks (bytesPerRow (options this)) (min (length d) (bytesPerRow (options this) * maxRows (options this))) d))
        (if min (length d) (bytesPerRow (options this) * maxRows (options this)) < length d
         then Some (length d - min (length d) (bytesPerRow (options this) * maxRows (options this))) else None)\<rparr>)"
    by (intro render_content) simp_all
  then show "render this = Some (this\<lparr>innerHTML :=
          Content (if showHeader (options this) then Some (17, False) else None)
            [renderRow (options this) 0 (take 16 d), renderRow (options this) 16 [d ! 16]] None\<rparr>)"
    unfolding n using a rowChunks_17 [of d] by simp
qed

text \<open>
  The statement for the 17 bytes of \<open>Hello, hex viewer\<close> with the default options, and
  for the empty buffer.
\<close>

theorem render_rows_partition_witness:
  "data (example_view 16 100 example_bytes) = Some example_bytes
   \<and> example_bytes \<noteq> [] \<and> length example_bytes = 17
   \<and> bytesPerRow (options (example_view 16 100 example_bytes)) = 16
   \<and> 2 \<le> maxRows (options (example_view 16 100 example_bytes))
   \<and> render (example_view 16 100 example_bytes)
       = Some ((example_view 16 100 example_bytes)\<lparr>innerHTML :=
           Content (Some (17, False))
             [renderRow (options (example_view 16 100 example_bytes)) 0 (take 16 example_bytes),
              renderRow (options (example_view 16 100 example_bytes)) 16 [example_bytes ! 16]]
             None\<rparr>)
   \<and> data (example_view 16 100 []) = Some []
   \<and> render (example_view 16 100 []) = Some ((example_view 16 100 [])\<lparr>innerHTML := NoData\<rparr>)"
proof -
  have h: "data (example_view 16 100 example_bytes) = Some example_bytes"
    "length example_bytes = 17" "example_bytes \<noteq> []"
    "bytesPerRow (options (example_view 16 100 example_bytes)) = 16"
    "2 \<le> maxRows (options (example_view 16 100 example_bytes))"
    "showHeader (options (example_view 16 100 example_bytes))"
    "data (example_view 16 100 []) = Some []"
    by (simp_all add: example_view_def example_bytes_def)
  from render_rows_partition [of "example_view 16 100 example_bytes" example_bytes] h
  have "render (example_view 16 100 example_bytes)
       = Some ((example_view 16 100 example_bytes)\<lparr>innerHTML :=
           Content (Some (17, False))
             [renderRow (options (example_view 16 100 example_bytes)) 0 (take 16 example_bytes),
              renderRow (options (example_view 16 100 example_bytes)) 16 [example_bytes ! 16]]
             None\<rparr>)"
    by simp
  moreover from render_rows_partition [of "example_view 16 100 []" "[]"] h(7)
  have "render (example_view 16 100 []) = Some ((example_view 16 100 [])\<lparr>innerHTML := NoData\<rparr>)"
    by blast
  ultimately show ?thesis using h by blast
qed

section \<open>C4: truncation\<close>

text \<open>
  Claim C4. For a non-empty buffer, \<open>render\<close> displays
  \<open>displayedLength = min(totalLength, bytesPerRow * maxRows)\<close> bytes in its rows. The
  header (when shown) says \<open>(truncated)\<close> exactly when \<open>totalLength > displayedLength\<close>,
  that is when \<open>bytesPerRow * maxRows < totalLength\<close>, and exactly then the last line
  reports \<open>totalLength - displayedLength\<close> more bytes.
\<close>

theorem render_truncation:
  "data this = Some d \<and> d \<noteq> [] \<longrightarrow>
     (let totalLength = length d;
          displayedLength = min totalLength (bytesPerRow (options this) * maxRows (options this));
          truncated = (totalLength > displayedLength)
      in \<exists>chunks.
           render this = Some (this\<lparr>innerHTML :=
             Content (if showHeader (options this) then Some (totalLength, truncated) else None)
               (map (\<lambda>(offset, bytes). renderRow (options this) offset bytes) chunks)
               (if truncated then Some (totalLength - displayedLength) else None)\<rparr>)
         \<and> length (concat (map snd chunks)) = displayedLength
         \<and> (truncated \<longleftrightarrow> bytesPerRow (options this) * maxRows (options this) < totalLength))"
proof
  assume a: "data this = Some d \<and> d \<noteq> []"
  let ?n = "min (length d) (bytesPerRow (options this) * maxRows (options this))"
  let ?chunks = "rowChunks (bytesPerRow (options this)) ?n d"
  have z: "?n = 0 \<or> 0 < bytesPerRow (options this)" by auto
  have "concat (map snd ?chunks) = take ?n d" using z by (rule concat_rowChunks)
  then have l: "length (concat (map snd ?chunks)) = ?n" by simp
  have t: "(length d > ?n) \<longleftrightarrow> bytesPerRow (options this) * maxRows (options this) < length d"
    by auto
  from a have r: "render this = Some (this\<lparr>innerHTML :=
      Content
        (if showHeader (options this) then Some (length d, ?n < length d) else None)
        (map (\<lambda>(offset, bytes). renderRow (options this) offset bytes) ?chunks)
        (if ?n < length d then Some (length d - ?n) else None)\<rparr>)"
    by (intro render_content) simp_all
  from r l t show "let totalLength = length d;
          displayedLength = min totalLength (bytesPerRow (options this) * maxRows (options this));
          truncated = (totalLength > displayedLength)
      in \<exists>chunks.
           render this = Some (this\<lparr>innerHTML :=
             Content (if showHeader (options this) then Some (totalLength, truncated) else None)
               (map (\<lambda>(offset, bytes). renderRow (options this) offset bytes) chunks)
               (if truncated then Some (totalLength - displayedLength) else None)\<rparr>)
         \<and> length (concat (map snd chunks)) = displayedLength
         \<and> (truncated \<longleftrightarrow> bytesPerRow (options this) * maxRows (options this) < totalLength)"
    unfolding Let_def by blast
qed

text \<open>The statement for the 17 bytes with two rows of two bytes: 4 shown, 13 more.\<close>

theorem render_truncation_witness:
  "data (example_view 2 2 example_bytes) = Some example_bytes \<and> example_bytes \<noteq> []
   \<and> (\<exists>chunks.
         render (example_view 2 2 example_bytes)
           = Some ((example_view 2 2 example_bytes)\<lparr>innerHTML :=
               Content (Some (17, True))
                 (map (\<lambda>(offset, bytes). renderRow (options (example_view 2 2 example_bytes)) offset bytes) chunks)
                 (Some 13)\<rparr>)
       \<and> length (concat (map snd chunks)) = 4)"
proof -
  have h: "data (example_view 2 2 example_bytes) = Some example_bytes" "example_bytes \<noteq> []"
    "length example_bytes = 17"
    "bytesPerRow (options (example_view 2 2 example_bytes)) = 2"
    "maxRows (options (example_view 2 2 example_bytes)) = 2"
    "showHeader (options (example_view 2 2 example_bytes))"
    by (simp_all add: example_view_def example_bytes_def)
  from render_truncation [of "example_view 2 2 example_bytes" example_bytes] h
  show ?thesis by (simp add: Let_def)
qed

section \<open>C10: rendering does not change the buffer\<close>

text \<open>
  Claim C10. \<open>render\<close> always ends and changes nothing of the view but the content of
  its container. After \<open>setData\<close> with a buffer \<open>b\<close>, and after any further \<open>render\<close>,
  whatever the options (so also when the display is truncated), \<open>getData\<close> returns \<open>b\<close>
  and \<open>getHexString\<close> is the two-digit lowercase encoding of all of \<open>b\<close>, twice as long
  as \<open>b\<close>.
\<close>

theorem render_keeps_data:
  "(\<exists>v. render this = Some (this\<lparr>innerHTML := v\<rparr>))
   \<and> (\<exists>this'. setData w this (Uint8ArrayData b) = Some this'
      \<and> data this' = Some b \<and> getData this' = Some b
      \<and> (\<exists>this''. render this' = Some this''
            \<and> data this'' = Some b \<and> getData this'' = Some b
            \<and> getHexString this'' = bytesToHex b
            \<and> length (getHexString this'') = 2 * length b))"
proof -
  let ?s = "this\<lparr>data := Some b\<rparr>"
  obtain v where v: "render ?s = Some (?s\<lparr>innerHTML := v\<rparr>)"
    using render_frame [of ?s] by blast
  let ?t = "?s\<lparr>innerHTML := v\<rparr>"
  obtain v' where v': "render ?t = Some (?t\<lparr>innerHTML := v'\<rparr>)"
    using render_frame [of ?t] by blast
  let ?u = "?t\<lparr>innerHTML := v'\<rparr>"
  have 1: "setData w this (Uint8ArrayData b) = Some ?t" using v by (simp add: setData_def)
  have 2: "data ?t = Some b" "getData ?t = Some b" by (simp_all add: getData_def)
  have 3: "data ?u = Some b" "getData ?u = Some b" by (simp_all add: getData_def)
  have 4: "getHexString ?u = bytesToHex b" by (simp add: getHexString_def bytesToHex_def)
  then have 5: "length (getHexString ?u) = 2 * length b" by (simp only: length_bytesToHex)
  from 1 2 v' 3 4 5 have "\<exists>this'. setData w this (Uint8ArrayData b) = Some this'
      \<and> data this' = Some b \<and> getData this' = Some b
      \<and> (\<exists>this''. render this' = Some this''
            \<and> data this'' = Some b \<and> getData this'' = Some b
            \<and> getHexString this'' = bytesToHex b
            \<and> length (getHexString this'') = 2 * length b)"
    by blast
  with render_frame [of this] show ?thesis by (rule conjI)
qed

section \<open>C9: defaults of the constructor's options\<close>

text \<open>
  Claim C9, as amended. An option \<open>bytesPerRow\<close>, \<open>maxRows\<close> or \<open>showAscii\<close> that the
  caller does not give gets its default (16, 100, true). A \<open>bytesPerRow\<close> or \<open>maxRows\<close>
  that is given and truthy is kept as it is, with no check that it is an unsigned
  integer.
\<close>

theorem HexView_options_defaults:
  "(given ''bytesPerRow'' = None \<longrightarrow> HexView_options given ''bytesPerRow'' = Some (Number 16))
   \<and> (given ''maxRows'' = None \<longrightarrow> HexView_options given ''maxRows'' = Some (Number 100))
   \<and> (given ''showAscii'' = None \<longrightarrow> HexView_options given ''showAscii'' = Some (Boolean True))
   \<and> (given ''bytesPerRow'' = Some v \<and> ToBoolean v \<longrightarrow> HexView_options given ''bytesPerRow'' = Some v)
   \<and> (given ''maxRows'' = Some v \<and> ToBoolean v \<longrightarrow> HexView_options given ''maxRows'' = Some v)"
  by (simp add: HexView_options_def map_add_def getProp_def js_or_def)

text \<open>The statement for no options at all, and for \<open>maxRows: 3\<close>.\<close>

theorem HexView_options_defaults_witness:
  "Map.empty ''bytesPerRow'' = (None :: jsval option)
   \<and> HexView_options Map.empty ''bytesPerRow'' = Some (Number 16)
   \<and> HexView_options Map.empty ''maxRows'' = Some (Number 100)
   \<and> HexView_options Map.empty ''showAscii'' = Some (Boolean True)
   \<and> [''maxRows'' \<mapsto> Number 3] ''maxRows'' = Some (Number 3) \<and> ToBoolean (Number 3)
   \<and> HexView_options [''maxRows'' \<mapsto> Number 3] ''maxRows'' = Some (Number 3)
   \<and> HexView_options [''maxRows'' \<mapsto> Number 3] ''bytesPerRow'' = Some (Number 16)"
  using HexView_options_defaults [of Map.empty "Number 3"]
    HexView_options_defaults [of "[''maxRows'' \<mapsto> Number 3]" "Number 3"]
  by simp

text \<open>
  The claim as it was stated asks that a value that is no unsigned integer be replaced by
  the default. The string \<open>abc\<close>, the number \<open>-5\<close> and the number \<open>1.5\<close> are kept.
\<close>

theorem HexView_options_counterexample:
  "HexView_options [''bytesPerRow'' \<mapsto> String (js ''abc'')] ''bytesPerRow'' = Some (String (js ''abc''))
   \<and> HexView_options [''maxRows'' \<mapsto> Number (- 5)] ''maxRows'' = Some (Number (- 5))
   \<and> HexView_options [''bytesPerRow'' \<mapsto> Number 1.5] ''bytesPerRow'' = Some (Number 1.5)"
  by (simp add: HexView_options_def)

end
